theory Spec2Isabelle
  imports Main
begin

section \<open>The competing consumer of src/src/index.ts\<close>

text \<open>
  The class EventStoreConsumer is an event-driven object: its methods run to completion
  on one thread and everything asynchronous (the HTTP transport, the handler's promise,
  the timers) calls back later. The embedding is a record for the object together with
  the part of the JavaScript run time it talks to, one HOL function per method or
  callback of the source, and a datatype of the callbacks the run time can deliver.
  Every observable effect (a request, a hook, an emitted event) is appended to a trace.

  What the embedding takes for granted: the responses are well-formed (the body of a GET
  has a list of entries, every event has a list of links); the hooks and the listeners of
  the emitted events return without throwing and do not call back into the consumer; a
  callback and the microtasks it leaves behind run without another callback in between.
  The URL of the GET is not kept: the trace records the count that it asks for.
\<close>

subsection \<open>Data\<close>

type_synonym error = string

record link =
  relation :: string
  uri :: string

record event =
  eventId :: string
  links :: "link list"

text \<open>
  The local variables that the closure doRequest of ackNackHelper captures: the target
  url, the retry counter and the two parameters retries and delayMs.
\<close>

record ackcall =
  url :: string
  retryCount :: nat
  retries :: nat
  delayMs :: nat

text \<open>
  A task is a started handleEvent(event) whose promise has not settled yet: the handler's
  own promise is pending, or a POST of ackNackHelper is outstanding, or the timer between
  two attempts is running.
\<close>

datatype phase = Handling | Posting ackcall | Delaying ackcall

datatype effect =
    HttpGet int
  | HttpPost string
  | EmitPoll
  | EmitDrain
  | OnEvent event
  | OnAck event
  | OnNack event
  | OnError error
  | HandlerCall event
  | RetryTimeout nat
  | ConsoleLog error

datatype promise = Resolved | Pending

text \<open>
  The fields of the object (stream ... pollTimer), the p-queue instance this.queue
  (queued: the thunks not started yet, this.queue.size is its length; pending:
  this.queue.pending), and the run time: the live timers created by schedulePoll as
  pairs (handle, delay), the next fresh handle, the number of GET requests without a
  response, the tasks, the listeners that stop() registered for drain, the errors whose
  console.log callback is still waiting in the microtask queue, and the trace.

  handler ev = Some e says that the user's handler throws e synchronously when called on
  ev; None says that it returns (a promise or a plain value), and the settlement of
  that promise arrives later as a callback.
\<close>

record consumer =
  stream :: "string option"
  group :: "string option"
  handler :: "event \<Rightarrow> error option"
  concurrency :: int
  eventStoreUrl :: string
  pollDelay :: nat
  running :: bool
  polling :: bool
  pollTimer :: "nat option"
  queued :: "event list"
  pending :: nat
  timers :: "(nat \<times> nat) list"
  nextTimer :: nat
  requests :: nat
  tasks :: "(event \<times> phase) list"
  drainListeners :: nat
  deferred :: "error list"
  trace :: "effect list"

subsection \<open>The constructor\<close>

text \<open>
  The parameter object. TypeScript's types are erased at run time, so a JavaScript caller
  can leave out any property: every property is optional here. The four hooks (onEvent,
  onAck, onNack, onError) are not stored: their calls are recorded in the trace.
\<close>

record params =
  p_stream :: "string option"
  p_group :: "string option"
  p_handler :: "event \<Rightarrow> error option"
  p_concurrency :: "int option"
  p_eventStoreUrl :: "string option"
  p_pollDelay :: "nat option"

datatype ctor_error = MissingEventStoreUrl

text \<open>JavaScript's a || b on strings: undefined and the empty string are falsy.\<close>

fun str_or :: "string option \<Rightarrow> string option \<Rightarrow> string option" where
  "str_or None b = b"
| "str_or (Some a) b = (if a = [] then b else Some a)"

text \<open>
  The constructor. The first argument is params, the second process.env.EVENT_STORE_URL.
  On numbers, a || b takes b when a is undefined or 0. The only throw statement is the
  one for the address; stream and group are stored as they come. What new PQueue does
  with a ceiling below 1 is not part of these sources and is not modelled: such a
  consumer never starts a handler here.
\<close>

definition "constructor" :: "params \<Rightarrow> string option \<Rightarrow> ctor_error + consumer" where
  "constructor p env =
     (let c = (case p_concurrency p of None \<Rightarrow> 1 | Some n \<Rightarrow> if n = 0 then 1 else n);
          d = (case p_pollDelay p of None \<Rightarrow> 500 | Some n \<Rightarrow> if n = 0 then 500 else n);
          u = (case str_or (str_or (p_eventStoreUrl p) env) (Some []) of
                 None \<Rightarrow> [] | Some a \<Rightarrow> a)
      in if u = [] then Inl MissingEventStoreUrl
         else Inr \<lparr> stream = p_stream p, group = p_group p, handler = p_handler p,
                    concurrency = c, eventStoreUrl = u, pollDelay = d,
                    running = False, polling = False, pollTimer = None,
                    queued = [], pending = 0,
                    timers = [], nextTimer = 0, requests = 0, tasks = [],
                    drainListeners = 0, deferred = [], trace = [] \<rparr>)"

subsection \<open>Polling\<close>

definition getQueueLength :: "consumer \<Rightarrow> int" where
  "getQueueLength s = int (length (queued s)) + int (pending s)"

text \<open>
  schedulePoll returns at once when this.pollTimer holds a handle. Nothing clears the
  handle when the timer fires: only cancelScheduledPoll deletes it.
\<close>

definition schedulePoll :: "consumer \<Rightarrow> consumer" where
  "schedulePoll s =
     (if pollTimer s \<noteq> None then s
      else s\<lparr> pollTimer := Some (nextTimer s),
              timers := timers s @ [(nextTimer s, pollDelay s)],
              nextTimer := Suc (nextTimer s) \<rparr>)"

text \<open>clearTimeout on undefined or on a handle that is no longer live does nothing.\<close>

definition clearTimeout :: "nat option \<Rightarrow> (nat \<times> nat) list \<Rightarrow> (nat \<times> nat) list" where
  "clearTimeout h ts = (case h of None \<Rightarrow> ts | Some k \<Rightarrow> filter (\<lambda>t. fst t \<noteq> k) ts)"

definition cancelScheduledPoll :: "consumer \<Rightarrow> consumer" where
  "cancelScheduledPoll s =
     s\<lparr> timers := clearTimeout (pollTimer s) (timers s), pollTimer := None \<rparr>"

definition poll :: "consumer \<Rightarrow> consumer" where
  "poll s =
     (let count = concurrency s - getQueueLength s
      in if count \<le> 0 then schedulePoll s
         else if polling s then s
         else (let s1 = cancelScheduledPoll (s\<lparr> polling := True \<rparr>)
               in s1\<lparr> requests := Suc (requests s1),
                       trace := trace s1 @ [HttpGet count] \<rparr>))"

definition start :: "consumer \<Rightarrow> consumer" where
  "start s = poll (s\<lparr> running := True \<rparr>)"

definition stop :: "consumer \<Rightarrow> consumer \<times> promise" where
  "stop s =
     (let s1 = cancelScheduledPoll (s\<lparr> running := False \<rparr>)
      in if getQueueLength s1 = 0 then (s1, Resolved)
         else (s1\<lparr> drainListeners := Suc (drainListeners s1) \<rparr>, Pending))"

subsection \<open>Handling an event\<close>

text \<open>
  The synchronous part of handleEvent: it calls the onEvent hook and then the handler,
  as the argument of Promise.resolve( ). When the handler throws (Some e), the exception
  leaves handleEvent before then( ) has attached the two callbacks of lines 155 to 162,
  which are handlerResolved and handlerRejected below. Otherwise (None) handleEvent
  returns the promise that those callbacks settle.
\<close>

definition handleEvent :: "event \<Rightarrow> consumer \<Rightarrow> consumer \<times> error option" where
  "handleEvent ev s = (s\<lparr> trace := trace s @ [OnEvent ev, HandlerCall ev] \<rparr>, handler s ev)"

subsection \<open>The queue\<close>

text \<open>
  Modelled from the spec: the package p-queue behind this.queue (add, size, pending) is
  not under src/. Section 4.2 of the spec gives its contract: a submitted thunk is
  invoked exactly once, no more than the configured number of invocations are active at
  once, an error raised inside a thunk is captured and does not reach the scheduling
  loop, and when a thunk has completed the counter goes down and the slot is free for
  the next one. So: the first waiting thunk is started while fewer than concurrency
  thunks are pending.

  When the thunk throws, the queue captures the exception, rejects the promise that add
  returned, counts the thunk as completed and looks at the next one. The rejection
  reaches the second callback of line 117 (console.log) as a microtask, after the running
  method has returned.
\<close>

fun tryToStart :: "event list \<Rightarrow> consumer \<Rightarrow> consumer" where
  "tryToStart [] s = s\<lparr> queued := [] \<rparr>"
| "tryToStart (ev # rest) s =
     (if int (pending s) < concurrency s then
        (case handleEvent ev (s\<lparr> pending := Suc (pending s) \<rparr>) of
           (s1, None) \<Rightarrow> s1\<lparr> queued := rest, tasks := tasks s1 @ [(ev, Handling)] \<rparr>
         | (s1, Some e) \<Rightarrow>
             tryToStart rest
               (s1\<lparr> pending := pending s1 - 1, deferred := deferred s1 @ [e] \<rparr>))
      else s\<lparr> queued := ev # rest \<rparr>)"

text \<open>
  In the same model: add appends the thunk and looks for a free slot; when a thunk has
  completed, the counter goes down and the queue looks for the next thunk.
\<close>

definition tryToStartAnother :: "consumer \<Rightarrow> consumer" where
  "tryToStartAnother s = tryToStart (queued s) s"

definition queue_add :: "event \<Rightarrow> consumer \<Rightarrow> consumer" where
  "queue_add ev s = tryToStartAnother (s\<lparr> queued := queued s @ [ev] \<rparr>)"

definition queue_next :: "consumer \<Rightarrow> consumer" where
  "queue_next s = tryToStartAnother (s\<lparr> pending := pending s - 1 \<rparr>)"

definition remove_nth :: "nat \<Rightarrow> 'a list \<Rightarrow> 'a list" where
  "remove_nth i xs = take i xs @ drop (Suc i) xs"

text \<open>From the source again: the callback that follows a fulfilled handleEvent.\<close>

definition didHandleEvent :: "consumer \<Rightarrow> consumer" where
  "didHandleEvent s =
     (let s1 = (if getQueueLength s = 0 then s\<lparr> trace := trace s @ [EmitDrain] \<rparr> else s)
      in if running s1 then poll s1 else s1)"

text \<open>
  The promise of task i is fulfilled: p-queue resolves the promise of add and moves on,
  then the first callback of line 117 (didHandleEvent) runs.
\<close>

definition taskFulfilled :: "nat \<Rightarrow> consumer \<Rightarrow> consumer" where
  "taskFulfilled i s = didHandleEvent (queue_next (s\<lparr> tasks := remove_nth i (tasks s) \<rparr>))"

text \<open>
  The promise of task i is rejected with e: p-queue rejects the promise of add and moves
  on, then the second callback of line 117 logs e. didHandleEvent is not called.
\<close>

definition taskRejected :: "nat \<Rightarrow> error \<Rightarrow> consumer \<Rightarrow> consumer" where
  "taskRejected i e s =
     (let s1 = queue_next (s\<lparr> tasks := remove_nth i (tasks s) \<rparr>)
      in s1\<lparr> deferred := deferred s1 @ [e] \<rparr>)"

subsection \<open>Acknowledging\<close>

text \<open>The loop over event.links: the uri of the first link whose relation is the type.\<close>

fun findUrl :: "link list \<Rightarrow> string \<Rightarrow> string option" where
  "findUrl [] t = None"
| "findUrl (l # ls) t = (if relation l = t then Some (uri l) else findUrl ls t)"

definition ackNackHelper :: "nat \<Rightarrow> event \<Rightarrow> string \<Rightarrow> nat \<Rightarrow> nat \<Rightarrow> consumer \<Rightarrow> consumer" where
  "ackNackHelper i ev type rs d s =
     (let s1 = s\<lparr> trace := trace s @ [if type = ''ack'' then OnAck ev else OnNack ev] \<rparr>
      in case findUrl (links ev) type of
           None \<Rightarrow> taskFulfilled i s1
         | Some u \<Rightarrow>
             if u = [] then taskFulfilled i s1
             else s1\<lparr> tasks := (tasks s1)[i := (ev, Posting \<lparr> url = u, retryCount = 0,
                                                              retries = rs, delayMs = d \<rparr>)],
                      trace := trace s1 @ [HttpPost u] \<rparr>)"

definition ack :: "nat \<Rightarrow> event \<Rightarrow> consumer \<Rightarrow> consumer" where
  "ack i ev s = ackNackHelper i ev ''ack'' 3 500 s"

definition nack :: "nat \<Rightarrow> event \<Rightarrow> consumer \<Rightarrow> consumer" where
  "nack i ev s = ackNackHelper i ev ''nack'' 3 500 s"

text \<open>The two callbacks that handleEvent attaches to the handler's promise: ack the event;
  log the error and nack the event.\<close>

definition handlerResolved :: "nat \<Rightarrow> event \<Rightarrow> consumer \<Rightarrow> consumer" where
  "handlerResolved i ev s = ack i ev s"

definition handlerRejected :: "nat \<Rightarrow> event \<Rightarrow> error \<Rightarrow> consumer \<Rightarrow> consumer" where
  "handlerRejected i ev e s = nack i ev (s\<lparr> trace := trace s @ [OnError e] \<rparr>)"

text \<open>The callbacks of the POST inside doRequest, and doRequest run again by its timer.\<close>

definition postResolved :: "nat \<Rightarrow> consumer \<Rightarrow> consumer" where
  "postResolved i s = taskFulfilled i s"

definition postRejected :: "nat \<Rightarrow> event \<Rightarrow> ackcall \<Rightarrow> error \<Rightarrow> consumer \<Rightarrow> consumer" where
  "postRejected i ev c e s =
     (let c1 = c\<lparr> retryCount := Suc (retryCount c) \<rparr>
      in if retryCount c1 = retries c1
         then taskRejected i e (s\<lparr> trace := trace s @ [OnError e] \<rparr>)
         else s\<lparr> tasks := (tasks s)[i := (ev, Delaying c1)],
                 trace := trace s @ [RetryTimeout (delayMs c1)] \<rparr>)"

definition doRequest :: "nat \<Rightarrow> event \<Rightarrow> ackcall \<Rightarrow> consumer \<Rightarrow> consumer" where
  "doRequest i ev c s =
     s\<lparr> tasks := (tasks s)[i := (ev, Posting c)], trace := trace s @ [HttpPost (url c)] \<rparr>"

subsection \<open>The callbacks of the GET request\<close>

definition fetchResolved :: "event list \<Rightarrow> consumer \<Rightarrow> consumer" where
  "fetchResolved entries s =
     (let s1 = s\<lparr> polling := False \<rparr>
      in if \<not> running s1 then s1
         else (let s2 = (if 0 < length entries then poll (fold queue_add entries s1)
                         else schedulePoll s1)
               in s2\<lparr> trace := trace s2 @ [EmitPoll] \<rparr>))"

definition fetchRejected :: "error \<Rightarrow> consumer \<Rightarrow> consumer" where
  "fetchRejected e s =
     (let s1 = s\<lparr> polling := False, trace := trace s @ [OnError e] \<rparr>
      in if running s1 then schedulePoll s1 else s1)"

subsection \<open>The run time\<close>

text \<open>
  What can happen to a consumer: a call of start or stop, a live poll timer that
  elapses, the response to the outstanding GET, the settlement of the handler's promise
  of task i, the response to the outstanding POST of task i, the retry timer of task i
  that elapses. A callback that the state does not wait for changes nothing.
\<close>

datatype action =
    Start
  | Stop
  | TimerFires nat
  | FetchResolves "event list"
  | FetchRejects error
  | HandlerResolves nat
  | HandlerRejects nat error
  | PostResolves nat
  | PostRejects nat error
  | RetryTimerFires nat

fun posting :: "phase \<Rightarrow> ackcall option" where
  "posting (Posting c) = Some c"
| "posting _ = None"

fun delaying :: "phase \<Rightarrow> ackcall option" where
  "delaying (Delaying c) = Some c"
| "delaying _ = None"

fun dispatch :: "consumer \<Rightarrow> action \<Rightarrow> consumer" where
  "dispatch s Start = start s"
| "dispatch s Stop = fst (stop s)"
| "dispatch s (TimerFires h) =
     (if h \<in> fst ` set (timers s)
      then poll (s\<lparr> timers := filter (\<lambda>t. fst t \<noteq> h) (timers s) \<rparr>) else s)"
| "dispatch s (FetchResolves entries) =
     (if 0 < requests s then fetchResolved entries (s\<lparr> requests := requests s - 1 \<rparr>) else s)"
| "dispatch s (FetchRejects e) =
     (if 0 < requests s then fetchRejected e (s\<lparr> requests := requests s - 1 \<rparr>) else s)"
| "dispatch s (HandlerResolves i) =
     (if i < length (tasks s) \<and> snd (tasks s ! i) = Handling
      then handlerResolved i (fst (tasks s ! i)) s else s)"
| "dispatch s (HandlerRejects i e) =
     (if i < length (tasks s) \<and> snd (tasks s ! i) = Handling
      then handlerRejected i (fst (tasks s ! i)) e s else s)"
| "dispatch s (PostResolves i) =
     (if i < length (tasks s) \<and> posting (snd (tasks s ! i)) \<noteq> None
      then postResolved i s else s)"
| "dispatch s (PostRejects i e) =
     (if i < length (tasks s) then
        (case posting (snd (tasks s ! i)) of
           Some c \<Rightarrow> postRejected i (fst (tasks s ! i)) c e s
         | None \<Rightarrow> s)
      else s)"
| "dispatch s (RetryTimerFires i) =
     (if i < length (tasks s) then
        (case delaying (snd (tasks s ! i)) of
           Some c \<Rightarrow> doRequest i (fst (tasks s ! i)) c s
         | None \<Rightarrow> s)
      else s)"

text \<open>After the method or callback has returned, the waiting console.log callbacks run.\<close>

definition flush :: "consumer \<Rightarrow> consumer" where
  "flush s = s\<lparr> trace := trace s @ map ConsoleLog (deferred s), deferred := [] \<rparr>"

definition step :: "consumer \<Rightarrow> action \<Rightarrow> consumer" where
  "step s a = flush (dispatch s a)"

fun run :: "consumer \<Rightarrow> action list \<Rightarrow> consumer" where
  "run s [] = s"
| "run s (a # as) = run (step s a) as"


subsection \<open>Invariants and observations\<close>

text \<open>
  The poll token: the live timers are at most the one whose handle this.pollTimer holds,
  and a GET is outstanding exactly while this.polling is set.
\<close>

definition timer_ok :: "consumer \<Rightarrow> bool" where
  "timer_ok s = (length (timers s) \<le> 1 \<and> fst ` set (timers s) \<subseteq> set_option (pollTimer s))"

definition request_ok :: "consumer \<Rightarrow> bool" where
  "request_ok s = (requests s = (if polling s then 1 else 0))"

text \<open>What the poll token promises: at most one GET outstanding, at most one live timer.\<close>

definition poll_token :: "consumer \<Rightarrow> bool" where
  "poll_token s = (requests s \<le> 1 \<and> length (timers s) \<le> 1)"

text \<open>p-queue's counter of pending thunks counts the tasks, and stays within the ceiling.\<close>

definition queue_ok :: "consumer \<Rightarrow> bool" where
  "queue_ok s = (pending s = length (tasks s) \<and> pending s \<le> nat (concurrency s))"

text \<open>The handler invocations that are active: the tasks whose handler promise is pending.\<close>

definition activeHandlers :: "consumer \<Rightarrow> nat" where
  "activeHandlers s = length (filter (\<lambda>t. snd t = Handling) (tasks s))"

text \<open>Observations of the trace: the GET requests, the GET requests that ask for no
  event, the POST requests, the steps of one
  acknowledgment (its POSTs, its retry timers and the error hook), and how often an
  effect occurred.\<close>

fun isGet :: "effect \<Rightarrow> bool" where
  "isGet (HttpGet n) = True"
| "isGet _ = False"

fun badGet :: "effect \<Rightarrow> bool" where
  "badGet (HttpGet n) = (n \<le> 0)"
| "badGet _ = False"

fun isPost :: "effect \<Rightarrow> bool" where
  "isPost (HttpPost u) = True"
| "isPost _ = False"

fun isAckStep :: "effect \<Rightarrow> bool" where
  "isAckStep (HttpPost u) = True"
| "isAckStep (RetryTimeout d) = True"
| "isAckStep (OnError e) = True"
| "isAckStep _ = False"

definition emitted :: "effect \<Rightarrow> consumer \<Rightarrow> nat" where
  "emitted x s = length (filter (\<lambda>y. y = x) (trace s))"

text \<open>The acknowledgments in progress: the tasks that wait for a POST or for a retry timer.\<close>

definition ackCalls :: "consumer \<Rightarrow> (event \<times> phase) list" where
  "ackCalls s = filter (\<lambda>t. snd t \<noteq> Handling) (tasks s)"

text \<open>
  The transport fails every attempt of the acknowledgment of task i: n rejected POSTs,
  with the retry timer elapsing between two of them.
\<close>

fun failures :: "nat \<Rightarrow> error \<Rightarrow> nat \<Rightarrow> action list" where
  "failures i e 0 = []"
| "failures i e (Suc 0) = [PostRejects i e]"
| "failures i e (Suc (Suc n)) = PostRejects i e # RetryTimerFires i # failures i e (Suc n)"

subsection \<open>Example inputs\<close>

definition ev1 :: event where
  "ev1 = \<lparr> eventId = ''ev1'',
           links = [\<lparr> relation = ''ack'', uri = ''/ack/ev1'' \<rparr>,
                    \<lparr> relation = ''nack'', uri = ''/nack/ev1'' \<rparr>] \<rparr>"

definition ev2 :: event where
  "ev2 = \<lparr> eventId = ''ev2'',
           links = [\<lparr> relation = ''ack'', uri = ''/ack/ev2'' \<rparr>,
                    \<lparr> relation = ''nack'', uri = ''/nack/ev2'' \<rparr>] \<rparr>"

definition ev3 :: event where
  "ev3 = \<lparr> eventId = ''ev3'',
           links = [\<lparr> relation = ''ack'', uri = ''/ack/ev3'' \<rparr>,
                    \<lparr> relation = ''nack'', uri = ''/nack/ev3'' \<rparr>] \<rparr>"

text \<open>A handler that returns for every event; the default concurrency and poll delay.\<close>

definition params_default :: params where
  "params_default =
     \<lparr> p_stream = Some ''MyStream'', p_group = Some ''my-service'', p_handler = (\<lambda>ev. None),
       p_concurrency = None, p_eventStoreUrl = Some ''http://localhost:2113'',
       p_pollDelay = None \<rparr>"

definition consumer_default :: consumer where
  "consumer_default = projr (constructor params_default None)"

definition params_two :: params where
  "params_two = params_default\<lparr> p_concurrency := Some 2 \<rparr>"

definition consumer_two :: consumer where
  "consumer_two = projr (constructor params_two None)"

text \<open>A poll delay that is longer than the three attempts of an acknowledgment take.\<close>

definition params_slow_poll :: params where
  "params_slow_poll = params_default\<lparr> p_pollDelay := Some 5000 \<rparr>"

definition consumer_slow_poll :: consumer where
  "consumer_slow_poll = projr (constructor params_slow_poll None)"

text \<open>A handler that throws synchronously on every event.\<close>

definition params_throwing :: params where
  "params_throwing = params_default\<lparr> p_handler := (\<lambda>ev. Some ''boom'') \<rparr>"

definition consumer_throwing :: consumer where
  "consumer_throwing = projr (constructor params_throwing None)"

text \<open>An event without links.\<close>

definition ev_bare :: event where
  "ev_bare = \<lparr> eventId = ''ev0'', links = [] \<rparr>"

section \<open>Properties\<close>

subsection \<open>What each method leaves alone\<close>

lemma schedulePoll_frame [simp]:
  "tasks (schedulePoll s) = tasks s" "pending (schedulePoll s) = pending s"
  "queued (schedulePoll s) = queued s" "concurrency (schedulePoll s) = concurrency s"
  "handler (schedulePoll s) = handler s" "running (schedulePoll s) = running s"
  "polling (schedulePoll s) = polling s" "requests (schedulePoll s) = requests s"
  "deferred (schedulePoll s) = deferred s" "trace (schedulePoll s) = trace s"
  "getQueueLength (schedulePoll s) = getQueueLength s"
  by (simp_all add: schedulePoll_def getQueueLength_def)

lemma cancelScheduledPoll_frame [simp]:
  "tasks (cancelScheduledPoll s) = tasks s" "pending (cancelScheduledPoll s) = pending s"
  "queued (cancelScheduledPoll s) = queued s" "concurrency (cancelScheduledPoll s) = concurrency s"
  "handler (cancelScheduledPoll s) = handler s" "running (cancelScheduledPoll s) = running s"
  "polling (cancelScheduledPoll s) = polling s" "requests (cancelScheduledPoll s) = requests s"
  "deferred (cancelScheduledPoll s) = deferred s" "trace (cancelScheduledPoll s) = trace s"
  "pollTimer (cancelScheduledPoll s) = None"
  "getQueueLength (cancelScheduledPoll s) = getQueueLength s"
  by (simp_all add: cancelScheduledPoll_def getQueueLength_def)

lemma poll_frame [simp]:
  "tasks (poll s) = tasks s" "pending (poll s) = pending s"
  "queued (poll s) = queued s" "concurrency (poll s) = concurrency s"
  "handler (poll s) = handler s" "running (poll s) = running s"
  "deferred (poll s) = deferred s"
  "getQueueLength (poll s) = getQueueLength s"
  by (simp_all add: poll_def Let_def getQueueLength_def)

lemma tryToStart_frame [simp]:
  "timers (tryToStart w s) = timers s" "pollTimer (tryToStart w s) = pollTimer s"
  "nextTimer (tryToStart w s) = nextTimer s" "requests (tryToStart w s) = requests s"
  "polling (tryToStart w s) = polling s" "running (tryToStart w s) = running s"
  "concurrency (tryToStart w s) = concurrency s" "handler (tryToStart w s) = handler s"
  by (induction w arbitrary: s; simp add: handleEvent_def split: option.splits)+

lemma tryToStartAnother_frame [simp]:
  "timers (tryToStartAnother s) = timers s" "pollTimer (tryToStartAnother s) = pollTimer s"
  "nextTimer (tryToStartAnother s) = nextTimer s" "requests (tryToStartAnother s) = requests s"
  "polling (tryToStartAnother s) = polling s" "running (tryToStartAnother s) = running s"
  "concurrency (tryToStartAnother s) = concurrency s" "handler (tryToStartAnother s) = handler s"
  by (simp_all add: tryToStartAnother_def)

lemma queue_add_frame [simp]:
  "timers (queue_add ev s) = timers s" "pollTimer (queue_add ev s) = pollTimer s"
  "nextTimer (queue_add ev s) = nextTimer s" "requests (queue_add ev s) = requests s"
  "polling (queue_add ev s) = polling s" "running (queue_add ev s) = running s"
  "concurrency (queue_add ev s) = concurrency s" "handler (queue_add ev s) = handler s"
  by (simp_all add: queue_add_def)

lemma fold_queue_add_frame [simp]:
  "timers (fold queue_add es s) = timers s" "pollTimer (fold queue_add es s) = pollTimer s"
  "nextTimer (fold queue_add es s) = nextTimer s" "requests (fold queue_add es s) = requests s"
  "polling (fold queue_add es s) = polling s" "running (fold queue_add es s) = running s"
  "concurrency (fold queue_add es s) = concurrency s" "handler (fold queue_add es s) = handler s"
  by (induction es arbitrary: s; simp)+

lemma queue_next_frame [simp]:
  "timers (queue_next s) = timers s" "pollTimer (queue_next s) = pollTimer s"
  "nextTimer (queue_next s) = nextTimer s" "requests (queue_next s) = requests s"
  "polling (queue_next s) = polling s" "running (queue_next s) = running s"
  "concurrency (queue_next s) = concurrency s" "handler (queue_next s) = handler s"
  by (simp_all add: queue_next_def)

subsection \<open>The invariants of polling and of the queue\<close>

lemma timer_ok_schedulePoll: "timer_ok s \<Longrightarrow> timer_ok (schedulePoll s)"
  by (auto simp: timer_ok_def schedulePoll_def)

lemma timers_cancel: "timer_ok s \<Longrightarrow> timers (cancelScheduledPoll s) = []"
  by (cases "pollTimer s") (auto simp: timer_ok_def cancelScheduledPoll_def clearTimeout_def filter_empty_conv)

lemma timer_ok_cancel: "timer_ok s \<Longrightarrow> timer_ok (cancelScheduledPoll s)"
  using timers_cancel[of s] by (simp add: timer_ok_def)

lemma timer_ok_poll: "timer_ok s \<Longrightarrow> timer_ok (poll s)"
  using timer_ok_cancel[of "s\<lparr>polling := True\<rparr>"]
  by (auto simp: poll_def Let_def timer_ok_schedulePoll) (simp_all add: timer_ok_def)

lemma request_ok_poll: "request_ok s \<Longrightarrow> request_ok (poll s)"
  by (auto simp: poll_def Let_def request_ok_def)

lemma queue_ok_tryToStart: "queue_ok s \<Longrightarrow> queue_ok (tryToStart w s)"
proof (induction w arbitrary: s)
  case Nil
  then show ?case by (simp add: queue_ok_def)
next
  case (Cons ev w)
  show ?case
  proof (cases "int (pending s) < concurrency s")
    case False
    with Cons.prems show ?thesis by (simp add: queue_ok_def)
  next
    case True
    show ?thesis
    proof (cases "handler s ev")
      case None
      with True Cons.prems show ?thesis by (simp add: queue_ok_def handleEvent_def)
    next
      case (Some e)
      let ?s' = "s\<lparr> pending := Suc (pending s), trace := trace s @ [OnEvent ev, HandlerCall ev],
                     pending := Suc (pending s) - 1, deferred := deferred s @ [e] \<rparr>"
      have "queue_ok ?s'" using Cons.prems by (simp add: queue_ok_def)
      then have "queue_ok (tryToStart w ?s')" by (rule Cons.IH)
      moreover have "tryToStart (ev # w) s = tryToStart w ?s'"
        using True Some by (simp add: handleEvent_def)
      ultimately show ?thesis by simp
    qed
  qed
qed

lemma queue_ok_tryToStartAnother: "queue_ok s \<Longrightarrow> queue_ok (tryToStartAnother s)"
  by (simp add: tryToStartAnother_def queue_ok_tryToStart)

lemma queue_ok_queue_add: "queue_ok s \<Longrightarrow> queue_ok (queue_add ev s)"
  unfolding queue_add_def by (rule queue_ok_tryToStartAnother) (simp add: queue_ok_def)

lemma queue_ok_fold_queue_add: "queue_ok s \<Longrightarrow> queue_ok (fold queue_add es s)"
  by (induction es arbitrary: s) (simp_all add: queue_ok_queue_add)

lemma queue_ok_poll: "queue_ok s \<Longrightarrow> queue_ok (poll s)"
  by (simp add: queue_ok_def)

lemma queue_ok_schedulePoll: "queue_ok s \<Longrightarrow> queue_ok (schedulePoll s)"
  by (simp add: queue_ok_def)

lemma length_remove_nth: "i < length xs \<Longrightarrow> length (remove_nth i xs) = length xs - 1"
  by (simp add: remove_nth_def)

lemma queue_ok_finish:
  assumes "queue_ok s" "i < length (tasks s)"
  shows "queue_ok (queue_next (s\<lparr> tasks := remove_nth i (tasks s) \<rparr>))"
  unfolding queue_next_def
  by (rule queue_ok_tryToStartAnother)
     (use assms in \<open>auto simp add: queue_ok_def length_remove_nth\<close>)

lemma queue_ok_didHandleEvent: "queue_ok s \<Longrightarrow> queue_ok (didHandleEvent s)"
  by (simp add: didHandleEvent_def Let_def queue_ok_def)

lemma queue_ok_trace_upd [simp]: "queue_ok (s\<lparr> trace := t \<rparr>) = queue_ok s"
  by (simp add: queue_ok_def)

lemma queue_ok_taskFulfilled:
  "queue_ok s \<Longrightarrow> i < length (tasks s) \<Longrightarrow> queue_ok (taskFulfilled i s)"
  by (simp add: taskFulfilled_def queue_ok_didHandleEvent queue_ok_finish)

lemma queue_ok_taskRejected:
  "queue_ok s \<Longrightarrow> i < length (tasks s) \<Longrightarrow> queue_ok (taskRejected i e s)"
  using queue_ok_finish[of s i] by (simp add: taskRejected_def Let_def queue_ok_def)

lemma queue_ok_ackNackHelper:
  "queue_ok s \<Longrightarrow> i < length (tasks s) \<Longrightarrow> queue_ok (ackNackHelper i ev t r d s)"
  using queue_ok_taskFulfilled[of "s\<lparr>trace := trace s @ [if t = ''ack'' then OnAck ev else OnNack ev]\<rparr>" i]
  by (auto simp: ackNackHelper_def Let_def split: option.splits) (simp_all add: queue_ok_def)

lemma queue_ok_postRejected:
  "queue_ok s \<Longrightarrow> i < length (tasks s) \<Longrightarrow> queue_ok (postRejected i ev c e s)"
  using queue_ok_taskRejected[of "s\<lparr>trace := trace s @ [OnError e]\<rparr>" i e]
  by (auto simp: postRejected_def Let_def) (simp_all add: queue_ok_def)

lemma queue_ok_fetchResolved: "queue_ok s \<Longrightarrow> queue_ok (fetchResolved es s)"
proof -
  assume a: "queue_ok s"
  have b: "queue_ok (s\<lparr> polling := False \<rparr>)" using a by (simp add: queue_ok_def)
  show ?thesis
    using b queue_ok_poll[OF queue_ok_fold_queue_add[OF b, of es]] queue_ok_schedulePoll[OF b]
    by (simp add: fetchResolved_def Let_def)
qed

lemma queue_ok_fetchRejected: "queue_ok s \<Longrightarrow> queue_ok (fetchRejected e s)"
  by (simp add: fetchRejected_def Let_def queue_ok_def)

lemma queue_ok_dispatch: "queue_ok s \<Longrightarrow> queue_ok (dispatch s a)"
proof (cases a)
  case Start
  assume "queue_ok s" then show ?thesis using Start by (simp add: start_def queue_ok_def)
next
  case Stop
  assume "queue_ok s" then show ?thesis using Stop by (simp add: stop_def Let_def queue_ok_def)
next
  case (TimerFires h)
  assume "queue_ok s" then show ?thesis using TimerFires by (simp add: queue_ok_def)
next
  case (FetchResolves es)
  assume a: "queue_ok s"
  then have "queue_ok (s\<lparr> requests := requests s - 1 \<rparr>)" by (simp add: queue_ok_def)
  then show ?thesis using a FetchResolves by (simp add: queue_ok_fetchResolved)
next
  case (FetchRejects e)
  assume a: "queue_ok s"
  then have "queue_ok (s\<lparr> requests := requests s - 1 \<rparr>)" by (simp add: queue_ok_def)
  then show ?thesis using a FetchRejects by (simp add: queue_ok_fetchRejected)
next
  case (HandlerResolves i)
  assume "queue_ok s" then show ?thesis using HandlerResolves
    by (simp add: handlerResolved_def ack_def queue_ok_ackNackHelper)
next
  case (HandlerRejects i e)
  assume "queue_ok s" then show ?thesis using HandlerRejects
    by (simp add: handlerRejected_def nack_def queue_ok_ackNackHelper)
next
  case (PostResolves i)
  assume "queue_ok s" then show ?thesis using PostResolves
    by (simp add: postResolved_def queue_ok_taskFulfilled)
next
  case (PostRejects i e)
  assume "queue_ok s" then show ?thesis using PostRejects
    by (simp add: queue_ok_postRejected split: option.splits)
next
  case (RetryTimerFires i)
  assume "queue_ok s" then show ?thesis using RetryTimerFires
    by (simp add: doRequest_def queue_ok_def split: option.splits)
qed

lemma queue_ok_step: "queue_ok s \<Longrightarrow> queue_ok (step s a)"
  using queue_ok_dispatch[of s a] by (simp add: step_def flush_def queue_ok_def)

lemma queue_ok_run: "queue_ok s \<Longrightarrow> queue_ok (run s as)"
  by (induction as arbitrary: s) (simp_all add: queue_ok_step)


subsection \<open>Immutable configuration\<close>

lemma didHandleEvent_frame [simp]:
  "concurrency (didHandleEvent s) = concurrency s" "handler (didHandleEvent s) = handler s"
  "running (didHandleEvent s) = running s" "tasks (didHandleEvent s) = tasks s"
  by (simp_all add: didHandleEvent_def Let_def)

lemma taskFulfilled_frame [simp]:
  "concurrency (taskFulfilled i s) = concurrency s" "handler (taskFulfilled i s) = handler s"
  "running (taskFulfilled i s) = running s"
  by (simp_all add: taskFulfilled_def)

lemma taskRejected_frame [simp]:
  "concurrency (taskRejected i e s) = concurrency s" "handler (taskRejected i e s) = handler s"
  "running (taskRejected i e s) = running s" "timers (taskRejected i e s) = timers s"
  "pollTimer (taskRejected i e s) = pollTimer s" "requests (taskRejected i e s) = requests s"
  "polling (taskRejected i e s) = polling s"
  by (simp_all add: taskRejected_def Let_def)

lemma ackNackHelper_frame [simp]:
  "concurrency (ackNackHelper i ev t r d s) = concurrency s"
  "handler (ackNackHelper i ev t r d s) = handler s"
  "running (ackNackHelper i ev t r d s) = running s"
  by (simp_all add: ackNackHelper_def Let_def split: option.splits)

lemma postRejected_frame [simp]:
  "concurrency (postRejected i ev c e s) = concurrency s"
  "handler (postRejected i ev c e s) = handler s"
  "running (postRejected i ev c e s) = running s"
  "timers (postRejected i ev c e s) = timers s"
  "pollTimer (postRejected i ev c e s) = pollTimer s"
  "requests (postRejected i ev c e s) = requests s"
  "polling (postRejected i ev c e s) = polling s"
  by (simp_all add: postRejected_def Let_def)

lemma fetchResolved_frame [simp]:
  "concurrency (fetchResolved es s) = concurrency s" "handler (fetchResolved es s) = handler s"
  "running (fetchResolved es s) = running s"
  by (simp_all add: fetchResolved_def Let_def)

lemma fetchRejected_frame [simp]:
  "concurrency (fetchRejected e s) = concurrency s" "handler (fetchRejected e s) = handler s"
  "running (fetchRejected e s) = running s" "tasks (fetchRejected e s) = tasks s"
  by (simp_all add: fetchRejected_def Let_def)

lemma dispatch_config:
  "concurrency (dispatch s a) = concurrency s \<and> handler (dispatch s a) = handler s"
  by (cases a)
     (simp_all add: start_def stop_def Let_def handlerResolved_def handlerRejected_def ack_def
        nack_def postResolved_def doRequest_def split: option.splits)

lemma step_config: "concurrency (step s a) = concurrency s \<and> handler (step s a) = handler s"
  using dispatch_config[of s a] by (simp add: step_def flush_def)

lemma run_config: "concurrency (run s as) = concurrency s \<and> handler (run s as) = handler s"
  by (induction as arbitrary: s) (simp_all add: step_config)

subsection \<open>Timers and requests\<close>

lemma timer_ok_cong:
  "timers s' = timers s \<Longrightarrow> pollTimer s' = pollTimer s \<Longrightarrow> timer_ok s' = timer_ok s"
  by (simp add: timer_ok_def)

lemma request_ok_cong:
  "requests s' = requests s \<Longrightarrow> polling s' = polling s \<Longrightarrow> request_ok s' = request_ok s"
  by (simp add: request_ok_def)

lemma request_ok_schedulePoll: "request_ok s \<Longrightarrow> request_ok (schedulePoll s)"
  by (simp add: request_ok_def)

lemma timer_ok_didHandleEvent: "timer_ok s \<Longrightarrow> timer_ok (didHandleEvent s)"
  using timer_ok_poll[of "s\<lparr> trace := trace s @ [EmitDrain] \<rparr>"] timer_ok_poll[of s]
  by (simp add: didHandleEvent_def Let_def) (simp add: timer_ok_def)

lemma request_ok_didHandleEvent: "request_ok s \<Longrightarrow> request_ok (didHandleEvent s)"
  using request_ok_poll[of "s\<lparr> trace := trace s @ [EmitDrain] \<rparr>"] request_ok_poll[of s]
  by (simp add: didHandleEvent_def Let_def) (simp add: request_ok_def)

lemma timer_ok_taskFulfilled: "timer_ok s \<Longrightarrow> timer_ok (taskFulfilled i s)"
  unfolding taskFulfilled_def
  by (rule timer_ok_didHandleEvent) (simp add: timer_ok_def)

lemma request_ok_taskFulfilled: "request_ok s \<Longrightarrow> request_ok (taskFulfilled i s)"
  unfolding taskFulfilled_def
  by (rule request_ok_didHandleEvent) (simp add: request_ok_def)

lemma timer_ok_ackNackHelper: "timer_ok s \<Longrightarrow> timer_ok (ackNackHelper i ev t r d s)"
  using timer_ok_taskFulfilled[of "s\<lparr>trace := trace s @ [if t = ''ack'' then OnAck ev else OnNack ev]\<rparr>" i]
  by (auto simp: ackNackHelper_def Let_def split: option.splits) (simp_all add: timer_ok_def)

lemma request_ok_ackNackHelper: "request_ok s \<Longrightarrow> request_ok (ackNackHelper i ev t r d s)"
  using request_ok_taskFulfilled[of "s\<lparr>trace := trace s @ [if t = ''ack'' then OnAck ev else OnNack ev]\<rparr>" i]
  by (auto simp: ackNackHelper_def Let_def split: option.splits) (simp_all add: request_ok_def)

lemma timer_ok_fetchResolved: "timer_ok s \<Longrightarrow> timer_ok (fetchResolved es s)"
proof -
  assume "timer_ok s"
  then have b: "timer_ok (s\<lparr> polling := False \<rparr>)" by (simp add: timer_ok_def)
  then have c: "timer_ok (fold queue_add es (s\<lparr> polling := False \<rparr>))"
    by (simp add: timer_ok_def)
  show ?thesis
    using b timer_ok_poll[OF c] timer_ok_schedulePoll[OF b]
    by (simp add: fetchResolved_def Let_def) (simp add: timer_ok_def)
qed

lemma request_ok_fetchResolved: "requests s = 0 \<Longrightarrow> request_ok (fetchResolved es s)"
proof -
  assume "requests s = 0"
  then have b: "request_ok (s\<lparr> polling := False \<rparr>)" by (simp add: request_ok_def)
  then have c: "request_ok (fold queue_add es (s\<lparr> polling := False \<rparr>))"
    by (simp add: request_ok_def)
  show ?thesis
    using b request_ok_poll[OF c] request_ok_schedulePoll[OF b]
    by (simp add: fetchResolved_def Let_def) (simp add: request_ok_def)
qed

lemma timer_ok_fetchRejected: "timer_ok s \<Longrightarrow> timer_ok (fetchRejected e s)"
  using timer_ok_schedulePoll[of "s\<lparr> polling := False, trace := trace s @ [OnError e] \<rparr>"]
  by (simp add: fetchRejected_def Let_def) (simp add: timer_ok_def)

lemma request_ok_fetchRejected: "requests s = 0 \<Longrightarrow> request_ok (fetchRejected e s)"
  by (simp add: fetchRejected_def Let_def request_ok_def)

lemma timer_ok_fired: "timer_ok s \<Longrightarrow> timer_ok (s\<lparr> timers := filter P (timers s) \<rparr>)"
  by (auto simp: timer_ok_def intro: le_trans[OF length_filter_le])

lemma timer_ok_dispatch: "timer_ok s \<Longrightarrow> timer_ok (dispatch s a)"
proof (cases a)
  case Start
  assume "timer_ok s"
  then have "timer_ok (s\<lparr> running := True \<rparr>)" by (simp add: timer_ok_def)
  then show ?thesis using Start by (simp add: start_def timer_ok_poll)
next
  case Stop
  assume "timer_ok s"
  then have "timer_ok (s\<lparr> running := False \<rparr>)" by (simp add: timer_ok_def)
  from timer_ok_cancel[OF this] show ?thesis using Stop
    by (simp add: stop_def Let_def) (simp add: timer_ok_def)
next
  case (TimerFires h)
  assume "timer_ok s"
  then show ?thesis using TimerFires timer_ok_poll[OF timer_ok_fired] by simp
next
  case (FetchResolves es)
  assume a: "timer_ok s"
  then have "timer_ok (s\<lparr> requests := requests s - 1 \<rparr>)" by (simp add: timer_ok_def)
  then show ?thesis using a FetchResolves by (simp add: timer_ok_fetchResolved)
next
  case (FetchRejects e)
  assume a: "timer_ok s"
  then have "timer_ok (s\<lparr> requests := requests s - 1 \<rparr>)" by (simp add: timer_ok_def)
  then show ?thesis using a FetchRejects by (simp add: timer_ok_fetchRejected)
next
  case (HandlerResolves i)
  assume "timer_ok s" then show ?thesis using HandlerResolves
    by (simp add: handlerResolved_def ack_def timer_ok_ackNackHelper)
next
  case (HandlerRejects i e)
  assume "timer_ok s"
  then have "timer_ok (s\<lparr> trace := trace s @ [OnError e] \<rparr>)" by (simp add: timer_ok_def)
  then show ?thesis using HandlerRejects \<open>timer_ok s\<close>
    by (simp add: handlerRejected_def nack_def timer_ok_ackNackHelper)
next
  case (PostResolves i)
  assume "timer_ok s" then show ?thesis using PostResolves
    by (simp add: postResolved_def timer_ok_taskFulfilled)
next
  case (PostRejects i e)
  assume "timer_ok s" then show ?thesis using PostRejects
    by (simp add: timer_ok_cong[of "postRejected _ _ _ _ s" s] split: option.splits)
next
  case (RetryTimerFires i)
  assume "timer_ok s" then show ?thesis using RetryTimerFires
    by (simp add: doRequest_def timer_ok_def split: option.splits)
qed

lemma request_ok_dispatch: "request_ok s \<Longrightarrow> request_ok (dispatch s a)"
proof (cases a)
  case Start
  assume "request_ok s"
  then have "request_ok (s\<lparr> running := True \<rparr>)" by (simp add: request_ok_def)
  then show ?thesis using Start by (simp add: start_def request_ok_poll)
next
  case Stop
  assume "request_ok s"
  then show ?thesis using Stop by (simp add: stop_def Let_def request_ok_def)
next
  case (TimerFires h)
  assume "request_ok s"
  then have "request_ok (s\<lparr> timers := filter (\<lambda>t. fst t \<noteq> h) (timers s) \<rparr>)"
    by (simp add: request_ok_def)
  then show ?thesis using TimerFires \<open>request_ok s\<close> by (simp add: request_ok_poll)
next
  case (FetchResolves es)
  assume a: "request_ok s"
  show ?thesis
  proof (cases "0 < requests s")
    case True
    with a have "requests (s\<lparr> requests := requests s - 1 \<rparr>) = 0"
      by (simp add: request_ok_def split: if_splits)
    from request_ok_fetchResolved[OF this] show ?thesis using True FetchResolves by simp
  next
    case False
    then show ?thesis using a FetchResolves by simp
  qed
next
  case (FetchRejects e)
  assume a: "request_ok s"
  show ?thesis
  proof (cases "0 < requests s")
    case True
    with a have "requests (s\<lparr> requests := requests s - 1 \<rparr>) = 0"
      by (simp add: request_ok_def split: if_splits)
    from request_ok_fetchRejected[OF this] show ?thesis using True FetchRejects by simp
  next
    case False
    then show ?thesis using a FetchRejects by simp
  qed
next
  case (HandlerResolves i)
  assume "request_ok s" then show ?thesis using HandlerResolves
    by (simp add: handlerResolved_def ack_def request_ok_ackNackHelper)
next
  case (HandlerRejects i e)
  assume "request_ok s"
  then have "request_ok (s\<lparr> trace := trace s @ [OnError e] \<rparr>)" by (simp add: request_ok_def)
  then show ?thesis using HandlerRejects \<open>request_ok s\<close>
    by (simp add: handlerRejected_def nack_def request_ok_ackNackHelper)
next
  case (PostResolves i)
  assume "request_ok s" then show ?thesis using PostResolves
    by (simp add: postResolved_def request_ok_taskFulfilled)
next
  case (PostRejects i e)
  assume "request_ok s" then show ?thesis using PostRejects
    by (simp add: request_ok_cong[of "postRejected _ _ _ _ s" s] split: option.splits)
next
  case (RetryTimerFires i)
  assume "request_ok s" then show ?thesis using RetryTimerFires
    by (simp add: doRequest_def request_ok_def split: option.splits)
qed

lemma poll_token_step: "timer_ok s \<and> request_ok s \<Longrightarrow> timer_ok (step s a) \<and> request_ok (step s a)"
  using timer_ok_dispatch[of s a] request_ok_dispatch[of s a]
  by (simp add: step_def flush_def timer_ok_def request_ok_def)

lemma poll_token_run: "timer_ok s \<and> request_ok s \<Longrightarrow> timer_ok (run s as) \<and> request_ok (run s as)"
proof (induction as arbitrary: s)
  case Nil
  then show ?case by simp
next
  case (Cons a as)
  from poll_token_step[OF Cons.prems] have "timer_ok (step s a) \<and> request_ok (step s a)" .
  from Cons.IH[OF this] show ?case by simp
qed

lemma constructor_ok:
  assumes "constructor p env = Inr c"
  shows "timer_ok c \<and> request_ok c \<and> queue_ok c \<and> trace c = []
    \<and> \<not> running c \<and> queued c = [] \<and> pending c = 0"
  using assms
  by (auto simp: constructor_def Let_def timer_ok_def request_ok_def queue_ok_def split: if_splits)


subsection \<open>What each method adds to the trace\<close>

lemma trace_poll:
  assumes "\<And>n. 0 < n \<Longrightarrow> \<not> P (HttpGet n)"
  shows "filter P (trace (poll s)) = filter P (trace s)"
  using assms by (simp add: poll_def Let_def)

lemma trace_tryToStart:
  assumes "\<And>ev. \<not> P (OnEvent ev)" "\<And>ev. \<not> P (HandlerCall ev)"
  shows "filter P (trace (tryToStart w s)) = filter P (trace s)"
  using assms by (induction w arbitrary: s) (simp_all add: handleEvent_def split: option.splits)

lemma trace_queue_add:
  assumes "\<And>ev. \<not> P (OnEvent ev)" "\<And>ev. \<not> P (HandlerCall ev)"
  shows "filter P (trace (queue_add x s)) = filter P (trace s)"
  using assms by (simp add: queue_add_def tryToStartAnother_def trace_tryToStart)

lemma trace_fold_queue_add:
  assumes "\<And>ev. \<not> P (OnEvent ev)" "\<And>ev. \<not> P (HandlerCall ev)"
  shows "filter P (trace (fold queue_add es s)) = filter P (trace s)"
  using assms by (induction es arbitrary: s) (simp_all add: trace_queue_add)

lemma trace_queue_next:
  assumes "\<And>ev. \<not> P (OnEvent ev)" "\<And>ev. \<not> P (HandlerCall ev)"
  shows "filter P (trace (queue_next s)) = filter P (trace s)"
  using assms by (simp add: queue_next_def tryToStartAnother_def trace_tryToStart)

lemma trace_didHandleEvent:
  assumes "\<And>n. 0 < n \<Longrightarrow> \<not> P (HttpGet n)" "\<not> P EmitDrain"
  shows "filter P (trace (didHandleEvent s)) = filter P (trace s)"
  using assms by (simp add: didHandleEvent_def Let_def trace_poll)

lemma trace_taskFulfilled:
  assumes "\<And>ev. \<not> P (OnEvent ev)" "\<And>ev. \<not> P (HandlerCall ev)"
    "\<And>n. 0 < n \<Longrightarrow> \<not> P (HttpGet n)" "\<not> P EmitDrain"
  shows "filter P (trace (taskFulfilled i s)) = filter P (trace s)"
  using assms by (simp add: taskFulfilled_def trace_didHandleEvent trace_queue_next)

lemma trace_taskRejected:
  assumes "\<And>ev. \<not> P (OnEvent ev)" "\<And>ev. \<not> P (HandlerCall ev)"
  shows "filter P (trace (taskRejected i e s)) = filter P (trace s)"
  using assms by (simp add: taskRejected_def Let_def trace_queue_next)


lemma trace_ackNackHelper:
  assumes "\<And>ev. \<not> P (OnEvent ev)" "\<And>ev. \<not> P (HandlerCall ev)"
    "\<And>n. 0 < n \<Longrightarrow> \<not> P (HttpGet n)" "\<not> P EmitDrain"
    "\<And>ev. \<not> P (OnAck ev)" "\<And>ev. \<not> P (OnNack ev)" "\<And>u. \<not> P (HttpPost u)"
  shows "filter P (trace (ackNackHelper i ev t r d s)) = filter P (trace s)"
  using assms by (simp add: ackNackHelper_def Let_def trace_taskFulfilled split: option.splits)

lemma trace_postRejected:
  assumes "\<And>ev. \<not> P (OnEvent ev)" "\<And>ev. \<not> P (HandlerCall ev)"
    "\<And>e. \<not> P (OnError e)" "\<And>d. \<not> P (RetryTimeout d)"
  shows "filter P (trace (postRejected i ev c e s)) = filter P (trace s)"
  using assms by (simp add: postRejected_def Let_def trace_taskRejected)

lemma trace_flush:
  assumes "\<And>e. \<not> P (ConsoleLog e)"
  shows "filter P (trace (flush s)) = filter P (trace s)"
  using assms by (simp add: flush_def)


lemma constructor_default: "constructor params_default None = Inr consumer_default"
  by (simp add: consumer_default_def params_default_def constructor_def)

subsection \<open>The concurrency ceiling\<close>

text \<open>
  C9. For every configured concurrency ceiling and every sequence of callbacks, whatever
  the batches that the GET requests deliver, the number of handler invocations that are
  active at the same time never exceeds the ceiling.
\<close>

theorem concurrency_ceiling:
  assumes "constructor p env = Inr c"
  shows "activeHandlers (run c as) \<le> nat (concurrency c)"
proof -
  from constructor_ok[OF assms] have "queue_ok c" by simp
  then have "queue_ok (run c as)" by (rule queue_ok_run)
  moreover have "activeHandlers (run c as) \<le> length (tasks (run c as))"
    by (simp add: activeHandlers_def)
  ultimately show ?thesis by (simp add: queue_ok_def run_config)
qed

lemma constructor_two: "constructor params_two None = Inr consumer_two"
  by (simp add: consumer_two_def params_two_def params_default_def constructor_def)

theorem concurrency_ceiling_witness:
  "constructor params_two None = Inr consumer_two \<and>
   activeHandlers (run consumer_two [Start, FetchResolves [ev1, ev2, ev3]])
     \<le> nat (concurrency consumer_two) \<and>
   activeHandlers (run consumer_two [Start, FetchResolves [ev1, ev2, ev3]]) = 2 \<and>
   length (queued (run consumer_two [Start, FetchResolves [ev1, ev2, ev3]])) = 1"
proof -
  have e: "activeHandlers (run consumer_two [Start, FetchResolves [ev1, ev2, ev3]]) = 2 \<and>
     length (queued (run consumer_two [Start, FetchResolves [ev1, ev2, ev3]])) = 1"
    by code_simp
  show ?thesis
    using concurrency_ceiling[OF constructor_two, of "[Start, FetchResolves [ev1, ev2, ev3]]"]
      constructor_two e
    by simp
qed


subsection \<open>The poll event\<close>

lemma emitted_poll_dispatch:
  "emitted EmitPoll (dispatch s a) =
     emitted EmitPoll s +
     (case a of FetchResolves es \<Rightarrow> (if 0 < requests s \<and> running s then 1 else 0) | _ \<Rightarrow> 0)"
proof (cases a)
  case (FetchResolves es)
  then show ?thesis
    by (simp add: emitted_def fetchResolved_def Let_def trace_poll trace_fold_queue_add)
next
  case (FetchRejects e)
  then show ?thesis by (simp add: emitted_def fetchRejected_def Let_def)
next
  case (PostRejects i e)
  then show ?thesis by (simp add: emitted_def trace_postRejected split: option.splits)
qed (simp_all add: emitted_def start_def stop_def Let_def trace_poll handlerResolved_def
      handlerRejected_def ack_def nack_def trace_ackNackHelper postResolved_def
      trace_taskFulfilled doRequest_def split: option.splits)

text \<open>
  C1, as the code has it. The consumer emits poll exactly once for every GET whose
  response arrives while the consumer is running. It does not emit poll when the GET
  fails, nor when the response arrives after stop, nor at any other callback: at every
  callback the number of emitted poll events grows by one in the first case and stays
  as it is in all others.
\<close>

theorem poll_event_emitted:
  "emitted EmitPoll (step s a) =
     emitted EmitPoll s +
     (case a of FetchResolves es \<Rightarrow> (if 0 < requests s \<and> running s then 1 else 0) | _ \<Rightarrow> 0)"
proof -
  have "emitted EmitPoll (step s a) = emitted EmitPoll (dispatch s a)"
    by (simp add: emitted_def step_def trace_flush)
  then show ?thesis by (simp only: emitted_poll_dispatch)
qed

text \<open>
  C1 as stated fails on the failure path: the consumer is started, its GET is
  outstanding, the transport rejects it, and no poll event has been emitted.
\<close>

theorem poll_event_counterexample:
  "requests (run consumer_default [Start]) = 1 \<and>
   emitted EmitPoll (run consumer_default [Start, FetchRejects ''ECONNREFUSED'']) = 0"
  by code_simp

subsection \<open>The poll token\<close>

lemma poll_token_ok: "timer_ok s \<Longrightarrow> request_ok s \<Longrightarrow> poll_token s"
  by (simp add: poll_token_def timer_ok_def request_ok_def)

text \<open>
  C5. In every state that a constructed consumer reaches, at most one GET is outstanding
  and at most one poll timer is live; start, poll, schedulePoll, the re-poll of
  didHandleEvent and stop keep it so; and when poll goes on to issue a request
  (capacity is free and no GET is outstanding) no poll timer is live afterwards.
\<close>

theorem poll_token_invariant:
  assumes "constructor p env = Inr c"
  shows "let s = run c as in
     poll_token s \<and> poll_token (start s) \<and> poll_token (poll s) \<and>
     poll_token (schedulePoll s) \<and> poll_token (didHandleEvent s) \<and>
     poll_token (fst (stop s)) \<and>
     (0 < concurrency s - getQueueLength s \<and> \<not> polling s \<longrightarrow>
        timers (poll s) = [] \<and> requests (poll s) = 1)"
proof -
  define s where "s = run c as"
  from constructor_ok[OF assms] have "timer_ok c \<and> request_ok c" by simp
  from poll_token_run[OF this] have ok: "timer_ok s" "request_ok s" by (simp_all add: s_def)
  have 1: "poll_token s" using ok by (rule poll_token_ok)
  have 2: "poll_token (start s)"
    using timer_ok_dispatch[OF ok(1), of Start] request_ok_dispatch[OF ok(2), of Start]
    by (simp add: poll_token_ok)
  have 3: "poll_token (poll s)"
    using timer_ok_poll[OF ok(1)] request_ok_poll[OF ok(2)] by (rule poll_token_ok)
  have 4: "poll_token (schedulePoll s)"
    using timer_ok_schedulePoll[OF ok(1)] request_ok_schedulePoll[OF ok(2)]
    by (rule poll_token_ok)
  have 5: "poll_token (didHandleEvent s)"
    using timer_ok_didHandleEvent[OF ok(1)] request_ok_didHandleEvent[OF ok(2)]
    by (rule poll_token_ok)
  have 6: "poll_token (fst (stop s))"
    using timer_ok_dispatch[OF ok(1), of Stop] request_ok_dispatch[OF ok(2), of Stop]
    by (simp add: poll_token_ok)
  have 7: "timers (poll s) = [] \<and> requests (poll s) = 1"
    if "0 < concurrency s - getQueueLength s" "\<not> polling s"
  proof -
    have "timer_ok (s\<lparr> polling := True \<rparr>)" using ok(1) by (simp add: timer_ok_def)
    from timers_cancel[OF this] that ok(2) show ?thesis
      by (simp add: poll_def Let_def request_ok_def)
  qed
  show ?thesis
    unfolding Let_def s_def[symmetric] using 1 2 3 4 5 6 7 by blast
qed

theorem poll_token_invariant_witness:
  "constructor params_default None = Inr consumer_default \<and>
   poll_token (run consumer_default [Start, FetchResolves []]) \<and>
   timers (run consumer_default [Start, FetchResolves []]) = [(0, 500)] \<and>
   0 < concurrency (run consumer_default [Start, FetchResolves []])
        - getQueueLength (run consumer_default [Start, FetchResolves []]) \<and>
   \<not> polling (run consumer_default [Start, FetchResolves []]) \<and>
   timers (poll (run consumer_default [Start, FetchResolves []])) = [] \<and>
   requests (poll (run consumer_default [Start, FetchResolves []])) = 1"
proof -
  have e: "timers (run consumer_default [Start, FetchResolves []]) = [(0, 500)] \<and>
     0 < concurrency (run consumer_default [Start, FetchResolves []])
          - getQueueLength (run consumer_default [Start, FetchResolves []]) \<and>
     \<not> polling (run consumer_default [Start, FetchResolves []])"
    by code_simp
  show ?thesis
    using poll_token_invariant[OF constructor_default, of "[Start, FetchResolves []]"]
      e constructor_default
    by (simp add: Let_def)
qed

subsection \<open>A stopped consumer\<close>

lemma stopped_didHandleEvent:
  "\<not> running s \<Longrightarrow> timers (didHandleEvent s) = timers s \<and>
     filter isGet (trace (didHandleEvent s)) = filter isGet (trace s)"
  by (simp add: didHandleEvent_def Let_def)

lemma stopped_taskFulfilled:
  "\<not> running s \<Longrightarrow> timers (taskFulfilled i s) = timers s \<and>
     filter isGet (trace (taskFulfilled i s)) = filter isGet (trace s)"
  by (simp add: taskFulfilled_def stopped_didHandleEvent trace_queue_next)

lemma stopped_ackNackHelper:
  "\<not> running s \<Longrightarrow> timers (ackNackHelper i ev t r d s) = timers s \<and>
     filter isGet (trace (ackNackHelper i ev t r d s)) = filter isGet (trace s)"
  by (simp add: ackNackHelper_def Let_def stopped_taskFulfilled split: option.splits)

lemma stopped_dispatch:
  assumes "\<not> running s" "timers s = []" "a \<noteq> Start"
  shows "\<not> running (dispatch s a) \<and> timers (dispatch s a) = [] \<and>
     filter isGet (trace (dispatch s a)) = filter isGet (trace s)"
proof (cases a)
  case Start
  with assms show ?thesis by simp
next
  case Stop
  with assms show ?thesis by (simp add: stop_def Let_def cancelScheduledPoll_def clearTimeout_def split: option.splits)
next
  case (TimerFires h)
  with assms show ?thesis by simp
next
  case (FetchResolves es)
  with assms show ?thesis by (simp add: fetchResolved_def)
next
  case (FetchRejects e)
  with assms show ?thesis by (simp add: fetchRejected_def)
next
  case (HandlerResolves i)
  with assms show ?thesis by (simp add: handlerResolved_def ack_def stopped_ackNackHelper)
next
  case (HandlerRejects i e)
  with assms show ?thesis by (simp add: handlerRejected_def nack_def stopped_ackNackHelper)
next
  case (PostResolves i)
  with assms show ?thesis by (simp add: postResolved_def stopped_taskFulfilled)
next
  case (PostRejects i e)
  with assms show ?thesis by (simp add: trace_postRejected split: option.splits)
next
  case (RetryTimerFires i)
  with assms show ?thesis by (simp add: doRequest_def split: option.splits)
qed

lemma stopped_step:
  assumes "\<not> running s" "timers s = []" "a \<noteq> Start"
  shows "\<not> running (step s a) \<and> timers (step s a) = [] \<and>
     filter isGet (trace (step s a)) = filter isGet (trace s)"
  using stopped_dispatch[OF assms] by (simp add: step_def flush_def)

lemma stopped_run:
  assumes "\<not> running s" "timers s = []" "Start \<notin> set as"
  shows "filter isGet (trace (run s as)) = filter isGet (trace s)"
  using assms
proof (induction as arbitrary: s)
  case Nil
  then show ?case by simp
next
  case (Cons a as)
  from Cons.prems have "a \<noteq> Start" "Start \<notin> set as" by auto
  from stopped_step[OF Cons.prems(1,2) this(1)] Cons.IH[of "step s a"] this(2)
  show ?case by simp
qed

lemma timer_ok_stop: "timer_ok s \<Longrightarrow> timers (fst (stop s)) = []"
  using timers_cancel[of "s\<lparr> running := False \<rparr>"]
  by (simp add: stop_def Let_def timer_ok_def)

lemma stop_fields:
  "\<not> running (fst (stop s)) \<and> pollTimer (fst (stop s)) = None \<and> trace (fst (stop s)) = trace s
   \<and> snd (stop s) = (if getQueueLength s = 0 then Resolved else Pending)"
  by (simp add: stop_def Let_def getQueueLength_def)

text \<open>
  C10. stop can be called in every state, the initial one included. On a consumer that
  was never started it returns a resolved promise; in any state with an empty queue it
  returns a resolved promise; it leaves no live poll timer and no timer handle, the
  consumer is not running afterwards, and until start is called again no callback
  makes the consumer issue a GET.
\<close>

theorem stop_in_every_state:
  assumes "constructor p env = Inr c" and "Start \<notin> set as'"
  shows "snd (stop c) = Resolved \<and>
     (getQueueLength (run c as) = 0 \<longrightarrow> snd (stop (run c as)) = Resolved) \<and>
     timers (fst (stop (run c as))) = [] \<and> pollTimer (fst (stop (run c as))) = None \<and>
     \<not> running (fst (stop (run c as))) \<and>
     filter isGet (trace (run (fst (stop (run c as))) as')) = filter isGet (trace (run c as))"
proof -
  from constructor_ok[OF assms(1)] have c: "timer_ok c \<and> request_ok c" "getQueueLength c = 0"
    by (simp_all add: getQueueLength_def)
  from poll_token_run[OF c(1)] have "timer_ok (run c as)" by simp
  then have t: "timers (fst (stop (run c as))) = []" by (rule timer_ok_stop)
  have "filter isGet (trace (run (fst (stop (run c as))) as'))
      = filter isGet (trace (fst (stop (run c as))))"
    by (rule stopped_run) (simp_all add: stop_fields t assms(2))
  then show ?thesis using t c(2) by (simp add: stop_fields)
qed


theorem stop_in_every_state_witness:
  "constructor params_default None = Inr consumer_default \<and>
   Start \<notin> set [FetchResolves [ev1], TimerFires 0] \<and>
   getQueueLength (run consumer_default [Start]) = 0 \<and>
   snd (stop (run consumer_default [Start])) = Resolved \<and>
   filter isGet (trace (run (fst (stop (run consumer_default [Start])))
                          [FetchResolves [ev1], TimerFires 0]))
     = filter isGet (trace (run consumer_default [Start]))"
proof -
  have e: "Start \<notin> set [FetchResolves [ev1], TimerFires 0]" by simp
  have q: "getQueueLength (run consumer_default [Start]) = 0" by code_simp
  show ?thesis
    using stop_in_every_state[OF constructor_default e, of "[Start]"] e q constructor_default
    by simp
qed


subsection \<open>Acknowledging with retries\<close>

lemma findUrl_None: "findUrl ls t = None \<longleftrightarrow> (\<forall>l \<in> set ls. relation l \<noteq> t)"
  by (induction ls) auto

lemma nonHandling_tryToStart:
  "filter (\<lambda>t. snd t \<noteq> Handling) (tasks (tryToStart w s))
     = filter (\<lambda>t. snd t \<noteq> Handling) (tasks s)"
  by (induction w arbitrary: s) (simp_all add: handleEvent_def split: option.splits)

lemma ackCalls_queue_next: "ackCalls (queue_next s) = ackCalls s"
  by (simp add: ackCalls_def queue_next_def tryToStartAnother_def nonHandling_tryToStart)

lemma remove_nth_update: "remove_nth i (xs[i := x]) = remove_nth i xs"
  by (simp add: remove_nth_def)

lemma nonHandling_remove_nth:
  assumes "i < length xs" "snd (xs ! i) = Handling"
  shows "filter (\<lambda>t. snd t \<noteq> Handling) (remove_nth i xs) = filter (\<lambda>t. snd t \<noteq> Handling) xs"
proof -
  have "xs = take i xs @ xs ! i # drop (Suc i) xs"
    using assms(1) by (simp add: id_take_nth_drop)
  then have "filter (\<lambda>t. snd t \<noteq> Handling) xs
      = filter (\<lambda>t. snd t \<noteq> Handling) (take i xs @ xs ! i # drop (Suc i) xs)" by simp
  also have "\<dots> = filter (\<lambda>t. snd t \<noteq> Handling) (take i xs @ drop (Suc i) xs)"
    using assms(2) by simp
  finally show ?thesis by (simp add: remove_nth_def)
qed

lemma postRejects_again:
  assumes "i < length (tasks s)" "tasks s ! i = (ev, Posting c)" "Suc (retryCount c) \<noteq> retries c"
  shows "tasks (step s (PostRejects i e))
           = (tasks s)[i := (ev, Delaying (c\<lparr> retryCount := Suc (retryCount c) \<rparr>))] \<and>
         filter isAckStep (trace (step s (PostRejects i e)))
           = filter isAckStep (trace s) @ [RetryTimeout (delayMs c)]"
  using assms by (simp add: step_def flush_def postRejected_def Let_def)

lemma retryTimer_fires:
  assumes "i < length (tasks s)" "tasks s ! i = (ev, Delaying c)"
  shows "tasks (step s (RetryTimerFires i)) = (tasks s)[i := (ev, Posting c)] \<and>
         filter isAckStep (trace (step s (RetryTimerFires i)))
           = filter isAckStep (trace s) @ [HttpPost (url c)]"
  using assms by (simp add: step_def flush_def doRequest_def)

lemma postRejects_last:
  assumes "i < length (tasks s)" "tasks s ! i = (ev, Posting c)" "Suc (retryCount c) = retries c"
  shows "ackCalls (step s (PostRejects i e))
           = filter (\<lambda>t. snd t \<noteq> Handling) (remove_nth i (tasks s)) \<and>
         filter isAckStep (trace (step s (PostRejects i e)))
           = filter isAckStep (trace s) @ [OnError e]"
proof -
  have d: "dispatch s (PostRejects i e) = taskRejected i e (s\<lparr> trace := trace s @ [OnError e] \<rparr>)"
    using assms by (simp add: postRejected_def Let_def)
  have "ackCalls (taskRejected i e (s\<lparr> trace := trace s @ [OnError e] \<rparr>))
      = filter (\<lambda>t. snd t \<noteq> Handling) (remove_nth i (tasks s))"
    using ackCalls_queue_next[of "s\<lparr> trace := trace s @ [OnError e], tasks := remove_nth i (tasks s) \<rparr>"]
    by (simp add: taskRejected_def Let_def ackCalls_def)
  moreover have "filter isAckStep (trace (taskRejected i e (s\<lparr> trace := trace s @ [OnError e] \<rparr>)))
      = filter isAckStep (trace s) @ [OnError e]"
    by (simp add: trace_taskRejected)
  ultimately show ?thesis
    unfolding step_def d by (simp add: flush_def ackCalls_def)
qed

lemma failures_run:
  assumes "i < length (tasks s)" "tasks s ! i = (ev, Posting c)"
    "retries c = retryCount c + n" "0 < n"
  shows "filter isAckStep (trace (run s (failures i e n)))
           = filter isAckStep (trace s)
             @ concat (replicate (n - 1) [RetryTimeout (delayMs c), HttpPost (url c)]) @ [OnError e]
         \<and> ackCalls (run s (failures i e n))
           = filter (\<lambda>t. snd t \<noteq> Handling) (remove_nth i (tasks s))"
  using assms
proof (induction i e n arbitrary: s c rule: failures.induct)
  case (1 i e)
  then show ?case by simp
next
  case (2 i e)
  then have "Suc (retryCount c) = retries c" by simp
  from postRejects_last[OF "2.prems"(1,2) this, of e] show ?case by simp
next
  case (3 i e n)
  let ?c1 = "c\<lparr> retryCount := Suc (retryCount c) \<rparr>"
  let ?s1 = "step s (PostRejects i e)"
  let ?s2 = "step ?s1 (RetryTimerFires i)"
  from "3.prems" have ne: "Suc (retryCount c) \<noteq> retries c" by simp
  note a = postRejects_again[OF "3.prems"(1,2) ne, of e]
  from a "3.prems"(1) have l1: "i < length (tasks ?s1)" "tasks ?s1 ! i = (ev, Delaying ?c1)"
    by simp_all
  note b = retryTimer_fires[OF l1]
  from b l1(1) have l2: "i < length (tasks ?s2)" "tasks ?s2 ! i = (ev, Posting ?c1)"
    by simp_all
  have r: "retries ?c1 = retryCount ?c1 + Suc n" using "3.prems"(3) by simp
  note ih = "3.IH"[OF l2 r]
  have t2: "tasks ?s2 = (tasks s)[i := (ev, Posting ?c1)]"
    using a b by simp
  have tr: "filter isAckStep (trace ?s2)
      = filter isAckStep (trace s) @ [RetryTimeout (delayMs c), HttpPost (url c)]"
    using a b by simp
  show ?case using ih tr by (simp add: t2 remove_nth_update)
qed

lemma posts_of_ackSteps: "filter isPost (filter isAckStep t) = filter isPost t"
proof -
  have "\<And>x. (isAckStep x \<and> isPost x) = isPost x"
    by (case_tac x) simp_all
  then show ?thesis by simp
qed

lemma posts_of_retries:
  "length (filter isPost (concat (replicate n [RetryTimeout d, HttpPost u]))) = n"
  by (induction n) simp_all

text \<open>
  C3. An acknowledgment whose POST fails on every attempt: the POST is issued exactly
  retries times (3 for ack and nack), the timer between two attempts always has the same
  delay (500 ms for ack and nack), the error hook is called once, after the last failed
  attempt, and afterwards the acknowledgment is no longer in progress, so that nothing
  can issue a further request for it. The loop ends when the counter is equal to
  retries, so retries is at least 1 here.
\<close>

theorem ack_retry_bound:
  assumes "i < length (tasks s)" and "tasks s ! i = (ev, Handling)"
    and "findUrl (links ev) type = Some u" and "u \<noteq> []" and "0 < rs"
  shows "filter isAckStep (trace (run (ackNackHelper i ev type rs d s) (failures i e rs)))
           = filter isAckStep (trace s)
             @ HttpPost u # concat (replicate (rs - 1) [RetryTimeout d, HttpPost u]) @ [OnError e]
         \<and> length (filter isPost (trace (run (ackNackHelper i ev type rs d s) (failures i e rs))))
           = length (filter isPost (trace s)) + rs
         \<and> ackCalls (run (ackNackHelper i ev type rs d s) (failures i e rs)) = ackCalls s
         \<and> ack i ev s = ackNackHelper i ev ''ack'' 3 500 s
         \<and> nack i ev s = ackNackHelper i ev ''nack'' 3 500 s"
proof -
  let ?c = "\<lparr> url = u, retryCount = 0, retries = rs, delayMs = d \<rparr>"
  let ?s1 = "ackNackHelper i ev type rs d s"
  let ?s2 = "run ?s1 (failures i e rs)"
  have t1: "tasks ?s1 = (tasks s)[i := (ev, Posting ?c)]"
    and tr1: "filter isAckStep (trace ?s1) = filter isAckStep (trace s) @ [HttpPost u]"
    using assms(3,4) by (simp_all add: ackNackHelper_def Let_def)
  from t1 assms(1) have l: "i < length (tasks ?s1)" "tasks ?s1 ! i = (ev, Posting ?c)"
    by simp_all
  have r: "retries ?c = retryCount ?c + rs" by simp
  from failures_run[OF l r assms(5), of e]
  have seq: "filter isAckStep (trace ?s2)
      = filter isAckStep (trace s)
        @ HttpPost u # concat (replicate (rs - 1) [RetryTimeout d, HttpPost u]) @ [OnError e]"
    and calls: "ackCalls ?s2 = filter (\<lambda>t. snd t \<noteq> Handling) (remove_nth i (tasks s))"
    by (simp_all add: tr1 t1 remove_nth_update)
  have "length (filter isPost (trace ?s2))
      = length (filter isPost (filter isAckStep (trace ?s2)))"
    by (simp only: posts_of_ackSteps)
  also have "\<dots> = length (filter isPost (filter isAckStep (trace s))) + rs"
    unfolding seq using assms(5) by (simp add: posts_of_retries del: filter_filter)
  also have "\<dots> = length (filter isPost (trace s)) + rs"
    by (simp only: posts_of_ackSteps)
  finally have cnt: "length (filter isPost (trace ?s2)) = length (filter isPost (trace s)) + rs" .
  have "ackCalls ?s2 = ackCalls s"
    using calls nonHandling_remove_nth[OF assms(1)] assms(2) by (simp add: ackCalls_def)
  with seq cnt show ?thesis by (simp add: ack_def nack_def)
qed

theorem ack_retry_bound_witness:
  "0 < length (tasks (run consumer_default [Start, FetchResolves [ev1]])) \<and>
   tasks (run consumer_default [Start, FetchResolves [ev1]]) ! 0 = (ev1, Handling) \<and>
   findUrl (links ev1) ''ack'' = Some ''/ack/ev1'' \<and>
   filter isAckStep
     (trace (run (ackNackHelper 0 ev1 ''ack'' 3 500 (run consumer_default [Start, FetchResolves [ev1]]))
               (failures 0 ''ETIMEDOUT'' 3)))
     = [HttpPost ''/ack/ev1'', RetryTimeout 500, HttpPost ''/ack/ev1'', RetryTimeout 500,
        HttpPost ''/ack/ev1'', OnError ''ETIMEDOUT'']"
proof -
  have h1: "0 < length (tasks (run consumer_default [Start, FetchResolves [ev1]]))"
    by code_simp
  have h2: "tasks (run consumer_default [Start, FetchResolves [ev1]]) ! 0 = (ev1, Handling)"
    by code_simp
  have h3: "findUrl (links ev1) ''ack'' = Some ''/ack/ev1''"
    by code_simp
  have h4: "''/ack/ev1'' \<noteq> []" by simp
  have h5: "0 < (3::nat)" by simp
  have t0: "filter isAckStep (trace (run consumer_default [Start, FetchResolves [ev1]])) = []"
    by code_simp
  show ?thesis
    using ack_retry_bound[OF h1 h2 h3 h4 h5, of 500 "''ETIMEDOUT''"] h1 h2 h3 t0
    by (simp add: numeral_2_eq_2)
qed

subsection \<open>An event without the link\<close>

text \<open>
  C6. When no link of the event has the relation that matches the outcome, the
  acknowledgment issues no POST and completes as a fulfilled one does: the hook is
  called and the task is finished through taskFulfilled.
\<close>

theorem missing_link_noop:
  assumes "\<forall>l \<in> set (links ev). relation l \<noteq> type"
  shows "ackNackHelper i ev type rs d s
           = taskFulfilled i (s\<lparr> trace := trace s @ [if type = ''ack'' then OnAck ev else OnNack ev] \<rparr>)
         \<and> filter isPost (trace (ackNackHelper i ev type rs d s)) = filter isPost (trace s)"
proof -
  from assms have "findUrl (links ev) type = None" by (simp add: findUrl_None)
  then show ?thesis by (simp add: ackNackHelper_def Let_def trace_taskFulfilled)
qed


theorem missing_link_noop_witness:
  "links ev_bare = [] \<and>
   filter isPost (trace (ackNackHelper 0 ev_bare ''ack'' 3 500
                           (run consumer_default [Start, FetchResolves [ev_bare]]))) = [] \<and>
   tasks (ackNackHelper 0 ev_bare ''ack'' 3 500
            (run consumer_default [Start, FetchResolves [ev_bare]])) = []"
proof -
  have l: "links ev_bare = []" by (simp add: ev_bare_def)
  then have m: "\<forall>l \<in> set (links ev_bare). relation l \<noteq> ''ack''" by simp
  have t0: "filter isPost (trace (run consumer_default [Start, FetchResolves [ev_bare]])) = []"
    by code_simp
  have t1: "tasks (ackNackHelper 0 ev_bare ''ack'' 3 500
                     (run consumer_default [Start, FetchResolves [ev_bare]])) = []"
    by code_simp
  from conjunct2[OF missing_link_noop[OF m, of 0 3 500
        "run consumer_default [Start, FetchResolves [ev_bare]]"]] t0
  have "filter isPost (trace (ackNackHelper 0 ev_bare ''ack'' 3 500
                           (run consumer_default [Start, FetchResolves [ev_bare]]))) = []"
    by (simp del: run.simps)
  with l t1 show ?thesis by (simp del: run.simps)
qed

subsection \<open>What the constructor checks\<close>

text \<open>
  C8, as the code has it. When neither the eventStoreUrl option nor the environment gives
  a non-empty address, the constructor raises at once. The subscription identity is not
  checked: leaving out stream and group never changes whether the constructor raises.
\<close>

theorem constructor_raises:
  "((p_eventStoreUrl p = None \<or> p_eventStoreUrl p = Some []) \<and> (env = None \<or> env = Some [])
      \<longrightarrow> isl (constructor p env)) \<and>
   isl (constructor (p\<lparr> p_stream := x, p_group := y \<rparr>) env) = isl (constructor p env)"
proof -
  have "isl (constructor p env)"
    if "p_eventStoreUrl p = None \<or> p_eventStoreUrl p = Some []" "env = None \<or> env = Some []"
    using that by (auto simp: constructor_def Let_def)
  moreover have "isl (constructor (p\<lparr> p_stream := x, p_group := y \<rparr>) env)
      = isl (constructor p env)"
    by (simp add: constructor_def Let_def)
  ultimately show ?thesis by blast
qed

theorem constructor_raises_witness:
  "p_eventStoreUrl (params_default\<lparr> p_eventStoreUrl := None \<rparr>) = None \<and>
   isl (constructor (params_default\<lparr> p_eventStoreUrl := None \<rparr>) None) \<and>
   isl (constructor (params_default\<lparr> p_eventStoreUrl := None, p_stream := None, p_group := None \<rparr>) None)"
  using constructor_raises[of "params_default\<lparr> p_eventStoreUrl := None \<rparr>" None None None]
  by simp

text \<open>
  C8 as stated fails for the subscription identity: with the address given and stream
  and group left out, the constructor returns a consumer.
\<close>

theorem constructor_identity_counterexample:
  "\<not> isl (constructor (params_default\<lparr> p_stream := None, p_group := None \<rparr>) None)"
  by (simp add: constructor_def params_default_def)

subsection \<open>Where the code departs from its description\<close>

text \<open>
  C2. concurrency 1 and a poll delay of 5 s; the GET delivers ev1, the handler's promise
  resolves, and the POST to the ack link fails three times. The last failure calls the
  error hook and rejects the task: the queue is empty afterwards and the consumer is
  running, but the rejection only reaches console.log. No drain is emitted and poll is
  not called, where a fulfilled POST is followed by drain and by the next GET. When
  stop was called while ev1 was being handled, its promise waits for a drain that is
  never emitted.
\<close>

theorem ack_exhausted_skips_didHandleEvent:
  "trace (run consumer_slow_poll
            ([Start, FetchResolves [ev1], HandlerResolves 0] @ failures 0 ''ETIMEDOUT'' 3))
     = [HttpGet 1, OnEvent ev1, HandlerCall ev1, EmitPoll, OnAck ev1,
        HttpPost ''/ack/ev1'', RetryTimeout 500, HttpPost ''/ack/ev1'', RetryTimeout 500,
        HttpPost ''/ack/ev1'', OnError ''ETIMEDOUT'', ConsoleLog ''ETIMEDOUT''] \<and>
   getQueueLength (run consumer_slow_poll
            ([Start, FetchResolves [ev1], HandlerResolves 0] @ failures 0 ''ETIMEDOUT'' 3)) = 0 \<and>
   running (run consumer_slow_poll
            ([Start, FetchResolves [ev1], HandlerResolves 0] @ failures 0 ''ETIMEDOUT'' 3)) \<and>
   requests (run consumer_slow_poll
            ([Start, FetchResolves [ev1], HandlerResolves 0] @ failures 0 ''ETIMEDOUT'' 3)) = 0 \<and>
   trace (run consumer_slow_poll [Start, FetchResolves [ev1], HandlerResolves 0, PostResolves 0])
     = [HttpGet 1, OnEvent ev1, HandlerCall ev1, EmitPoll, OnAck ev1,
        HttpPost ''/ack/ev1'', EmitDrain, HttpGet 1] \<and>
   snd (stop (run consumer_slow_poll [Start, FetchResolves [ev1]])) = Pending \<and>
   getQueueLength (run consumer_slow_poll
            ([Start, FetchResolves [ev1], Stop, HandlerResolves 0] @ failures 0 ''ETIMEDOUT'' 3)) = 0 \<and>
   emitted EmitDrain (run consumer_slow_poll
            ([Start, FetchResolves [ev1], Stop, HandlerResolves 0] @ failures 0 ''ETIMEDOUT'' 3)) = 0"
  by (simp add: consumer_slow_poll_def params_slow_poll_def params_default_def ev1_def
        constructor_def getQueueLength_def schedulePoll_def clearTimeout_def
        cancelScheduledPoll_def poll_def start_def stop_def handleEvent_def
        tryToStartAnother_def
        queue_add_def queue_next_def remove_nth_def didHandleEvent_def taskFulfilled_def
        taskRejected_def ackNackHelper_def ack_def nack_def handlerResolved_def
        postResolved_def postRejected_def doRequest_def fetchResolved_def flush_def
        step_def emitted_def Let_def numeral_3_eq_3)

lemma badGet_dispatch: "filter badGet (trace (dispatch s a)) = filter badGet (trace s)"
  by (cases a)
     (simp_all add: start_def stop_def Let_def trace_poll fetchResolved_def fetchRejected_def
        trace_fold_queue_add handlerResolved_def handlerRejected_def ack_def nack_def
        trace_ackNackHelper postResolved_def trace_taskFulfilled trace_postRejected
        doRequest_def split: option.splits)

lemma badGet_run: "filter badGet (trace (run s as)) = filter badGet (trace s)"
  by (induction as arbitrary: s) (simp_all add: step_def trace_flush badGet_dispatch)

text \<open>The half of C4 that holds: every GET that is issued asks for at least one event.\<close>

lemma fetch_count_positive:
  assumes "constructor p env = Inr c" and "HttpGet n \<in> set (trace (run c as))"
  shows "0 < n"
proof -
  from constructor_ok[OF assms(1)] have "filter badGet (trace (run c as)) = []"
    by (simp add: badGet_run)
  then have "\<forall>x \<in> set (trace (run c as)). \<not> badGet x" by (simp add: filter_empty_conv)
  with assms(2) have "\<not> badGet (HttpGet n)" by blast
  then show ?thesis by simp
qed

text \<open>
  C4. concurrency 1; the GET delivers ev1 and the handler is still running when the poll
  timer elapses. poll finds capacity 0 and calls schedulePoll, which returns at once
  because this.pollTimer still holds the handle of the timer that has just fired: no
  timer is live afterwards, and a further call of poll changes nothing.
\<close>

theorem full_queue_recheck_not_scheduled:
  "concurrency (run consumer_default [Start, FetchResolves [ev1], TimerFires 0])
     - getQueueLength (run consumer_default [Start, FetchResolves [ev1], TimerFires 0]) = 0 \<and>
   timers (run consumer_default [Start, FetchResolves [ev1]]) = [(0, 500)] \<and>
   timers (run consumer_default [Start, FetchResolves [ev1], TimerFires 0]) = [] \<and>
   pollTimer (run consumer_default [Start, FetchResolves [ev1], TimerFires 0]) = Some 0 \<and>
   timers (poll (run consumer_default [Start, FetchResolves [ev1], TimerFires 0])) = [] \<and>
   requests (poll (run consumer_default [Start, FetchResolves [ev1], TimerFires 0])) = 0"
  by code_simp

text \<open>
  What handleEvent does when the handler's promise settles: one acknowledgment, on the
  link of the matching relation, preceded by the error hook when the promise rejected.
\<close>

lemma handler_resolves_acks:
  assumes "i < length (tasks s)" "tasks s ! i = (ev, Handling)"
    "findUrl (links ev) ''ack'' = Some u" "u \<noteq> []"
  shows "trace (dispatch s (HandlerResolves i)) = trace s @ [OnAck ev, HttpPost u]"
  using assms by (simp add: handlerResolved_def ack_def ackNackHelper_def Let_def)

lemma handler_rejects_nacks:
  assumes "i < length (tasks s)" "tasks s ! i = (ev, Handling)"
    "findUrl (links ev) ''nack'' = Some u" "u \<noteq> []"
  shows "trace (dispatch s (HandlerRejects i e)) = trace s @ [OnError e, OnNack ev, HttpPost u]"
  using assms by (simp add: handlerRejected_def nack_def ackNackHelper_def Let_def)

text \<open>
  C7. A handler that throws on ev1: the hook onEvent and the handler are called, then the
  exception leaves handleEvent. The error hook is not called and no nack is issued; the
  error only reaches console.log. A handler whose promise rejects gets the error hook and
  the nack.
\<close>

theorem throwing_handler_not_nacked:
  "trace (run consumer_throwing [Start, FetchResolves [ev1]])
     = [HttpGet 1, OnEvent ev1, HandlerCall ev1, HttpGet 1, EmitPoll, ConsoleLog ''boom''] \<and>
   tasks (run consumer_throwing [Start, FetchResolves [ev1]]) = [] \<and>
   trace (run consumer_default [Start, FetchResolves [ev1], HandlerRejects 0 ''boom''])
     = [HttpGet 1, OnEvent ev1, HandlerCall ev1, EmitPoll, OnError ''boom'', OnNack ev1,
        HttpPost ''/nack/ev1'']"
  by code_simp

end
